theory Spec2Isabelle
  imports Main "HOL-Library.Multiset" "HOL-Library.Product_Lexorder"
begin

section \<open>Data model of the N-Queens CSP solver (Project-2)\<close>

text \<open>
  The solver keeps three dictionaries keyed by the row numbers \<open>0..n-1\<close>:
  \<^item> \<open>domains\<close>: row \<open>\<mapsto>\<close> Python \<open>set\<close> of candidate columns,
  \<^item> \<open>neighbors\<close>: row \<open>\<mapsto>\<close> Python \<open>list\<close> of rows,
  \<^item> \<open>assignment\<close>: row \<open>\<mapsto>\<close> column or \<open>None\<close>.

  A dictionary with the keys \<open>0..len-1\<close> is modelled by the list of its values, indexed
  by the key; looking up a key \<open>\<ge> len\<close> raises \<open>KeyError\<close>. A Python \<open>set\<close> of
  columns is modelled by the list of its elements in iteration order; \<open>s.remove(v)\<close> deletes
  \<open>v\<close> and keeps the order of the rest, and a copy \<open>set(s)\<close> is iterated like \<open>s\<close>. (Python
  leaves the iteration order of a set open. The source depends on it in one place only, the
  order of candidates of equal cost in \<open>order_domain_values\<close>, and with it which solution
  is found first.) Rows and the board size \<open>n\<close> are naturals (rows index the dictionaries,
  and \<open>range(n)\<close> is empty for \<open>n \<le> 0\<close>), columns are Python integers.

  Limits of the interpreter (recursion depth, memory) are not modelled.

  The Python functions mutate their arguments in place and may raise. Each function of the
  model therefore returns its outcome (\<open>Ret v\<close> for \<open>return v\<close>, \<open>Raise e\<close> for an
  exception) together with the state of the mutated objects at the moment it returns or
  raises.
\<close>

datatype error = KeyError | IndexError

type_synonym 'a result = "error + 'a"

abbreviation Raise :: "error \<Rightarrow> 'a result" where
  "Raise e \<equiv> Inl e"

abbreviation Ret :: "'a \<Rightarrow> 'a result" where
  "Ret v \<equiv> Inr v"

type_synonym domains = "int list list"
type_synonym neighbors = "nat list list"
type_synonym assignment = "int option list"

subsection \<open>ac3.py\<close>

text \<open>\<open>conflict(r1, c1, r2, c2)\<close>, ac3.py lines 53-59.\<close>

definition conflict :: "int \<Rightarrow> int \<Rightarrow> int \<Rightarrow> int \<Rightarrow> bool" where
  "conflict r1 c1 r2 c2 = (if c1 = c2 then True else \<bar>r1 - r2\<bar> = \<bar>c1 - c2\<bar>)"

text \<open>
  The inner loop of \<open>revise\<close> (lines 39-43): \<open>conflict_with_all\<close> stays \<open>True\<close> iff no
  \<open>vj\<close> of \<open>domains[Xj]\<close> is free of conflict with \<open>vi\<close>.
\<close>

definition conflict_with_all :: "domains \<Rightarrow> nat \<Rightarrow> nat \<Rightarrow> int \<Rightarrow> bool" where
  "conflict_with_all domains Xi Xj vi =
     list_all (\<lambda>vj. conflict (int Xi) vi (int Xj) vj) (domains ! Xj)"

text \<open>
  \<open>revise(domains, Xi, Xj)\<close>, lines 30-51. \<open>domains[Xi]\<close> is looked up first; \<open>domains[Xj]\<close>
  is looked up only inside the loop over \<open>domains[Xi]\<close>, so only when that set is not empty.
  Both lookups happen before any removal. The second loop removes the collected values one
  by one.
\<close>

definition revise :: "domains \<Rightarrow> nat \<Rightarrow> nat \<Rightarrow> bool result \<times> domains" where
  "revise domains Xi Xj =
     (if Xi \<ge> length domains then (Raise KeyError, domains)
      else if domains ! Xi \<noteq> [] \<and> Xj \<ge> length domains then (Raise KeyError, domains)
      else let to_remove = filter (conflict_with_all domains Xi Xj) (domains ! Xi)
           in (Ret (to_remove \<noteq> []),
               domains[Xi := fold remove1 to_remove (domains ! Xi)]))"

text \<open>
  The \<open>while queue\<close> loop of \<open>AC3\<close>, lines 19-28. The queue is a FIFO of arcs: \<open>popleft\<close>
  takes the head, \<open>append\<close> adds at the end.
\<close>

function AC3_loop :: "neighbors \<Rightarrow> (nat \<times> nat) list \<Rightarrow> domains \<Rightarrow> bool result \<times> domains" where
  "AC3_loop neighbors [] domains = (Ret True, domains)"
| "AC3_loop neighbors ((Xi, Xj) # queue) domains =
     (case revise domains Xi Xj of
        (Ret True, d) \<Rightarrow>
          if length (d ! Xi) = 0 then (Ret False, d)
          else if Xi \<ge> length neighbors then (Raise KeyError, d)
          else AC3_loop neighbors
                 (queue @ map (\<lambda>Xk. (Xk, Xi)) (filter (\<lambda>Xk. Xk \<noteq> Xj) (neighbors ! Xi))) d
      | (Ret False, d) \<Rightarrow> AC3_loop neighbors queue d
      | (Raise e, d) \<Rightarrow> (Raise e, d))"
  by pat_completeness auto

subsection \<open>Termination of the propagation loop\<close>

lemma fold_remove1_filter_aux:
  "\<forall>y\<in>set ys. \<not> P y \<Longrightarrow> fold remove1 (filter P xs) (ys @ xs) = ys @ filter (\<lambda>x. \<not> P x) xs"
proof (induction xs arbitrary: ys)
  case Nil
  then show ?case by simp
next
  case (Cons x xs)
  show ?case
  proof (cases "P x")
    case True
    with Cons.prems have "x \<notin> set ys" by auto
    then have "remove1 x (ys @ x # xs) = ys @ xs" by (simp add: remove1_append)
    with True Cons.IH[OF Cons.prems] show ?thesis by simp
  next
    case False
    with Cons.prems have "\<forall>y\<in>set (ys @ [x]). \<not> P y" by auto
    from Cons.IH[OF this] False show ?thesis by simp
  qed
qed

lemma fold_remove1_filter:
  "fold remove1 (filter P xs) xs = filter (\<lambda>x. \<not> P x) xs"
  using fold_remove1_filter_aux[of "[]" P xs] by simp

lemma revise_Ret:
  assumes "revise d Xi Xj = (Ret b, d')"
  shows "Xi < length d" 
    and "d' = d[Xi := filter (\<lambda>v. \<not> conflict_with_all d Xi Xj v) (d ! Xi)]"
    and "b = (\<exists>v\<in>set (d ! Xi). conflict_with_all d Xi Xj v)"
    and "d ! Xi \<noteq> [] \<Longrightarrow> Xj < length d"
  using assms
  by (auto simp add: revise_def Let_def fold_remove1_filter filter_empty_conv split: if_splits)

lemma revise_False_same:
  assumes "revise d Xi Xj = (Ret False, d')"
  shows "d' = d"
proof -
  from revise_Ret[OF assms] have 1: "Xi < length d" 
    and 2: "d' = d[Xi := filter (\<lambda>v. \<not> conflict_with_all d Xi Xj v) (d ! Xi)]"
    and 3: "\<not> (\<exists>v\<in>set (d ! Xi). conflict_with_all d Xi Xj v)" by auto
  from 3 have "filter (\<lambda>v. \<not> conflict_with_all d Xi Xj v) (d ! Xi) = d ! Xi" by simp
  with 2 show ?thesis by simp
qed

text \<open>The sum of the sizes of all domains: the termination measure of the propagation loop.\<close>

definition total_size :: "domains \<Rightarrow> nat" where
  "total_size d = sum_list (map length d)"

lemma total_size_update:
  "i < length d \<Longrightarrow> total_size (d[i := xs]) + length (d ! i) = total_size d + length xs"
  unfolding total_size_def
proof (induction d arbitrary: i)
  case Nil
  then show ?case by simp
next
  case (Cons a d)
  then show ?case by (cases i) auto
qed

lemma revise_True_smaller:
  assumes "revise d Xi Xj = (Ret True, d')"
  shows "total_size d' < total_size d"
proof -
  from revise_Ret[OF assms] have 1: "Xi < length d" 
    and 2: "d' = d[Xi := filter (\<lambda>v. \<not> conflict_with_all d Xi Xj v) (d ! Xi)]"
    and 3: "\<exists>v\<in>set (d ! Xi). conflict_with_all d Xi Xj v" by auto
  from 3 obtain v where "v \<in> set (d ! Xi)" "conflict_with_all d Xi Xj v" by blast
  then have "length (filter (\<lambda>v. \<not> conflict_with_all d Xi Xj v) (d ! Xi)) < length (d ! Xi)"
    by (intro length_filter_less[of v]) auto
  with total_size_update[OF 1, of "filter (\<lambda>v. \<not> conflict_with_all d Xi Xj v) (d ! Xi)"] 2
  show ?thesis by simp
qed

termination AC3_loop
proof (relation "measures [\<lambda>(nb, q, d). total_size d, \<lambda>(nb, q, d). length q]", goal_cases)
  case 1
  then show ?case by simp
next
  case (2 neighbors Xi Xj queue domains x1 x2 x1a)
  then have "total_size x2 < total_size domains" using revise_True_smaller[of domains Xi Xj x2] by simp
  then show ?case by simp
next
  case (3 neighbors Xi Xj queue domains x1 x2 x1a)
  then have "x2 = domains" using revise_False_same[of domains Xi Xj x2] by simp
  then show ?case by simp
qed

text \<open>
  \<open>AC3(domains, neighbors, n)\<close>, lines 8-28. The queue is filled with the arcs \<open>(r, nb)\<close>
  for \<open>r\<close> in \<open>range(n)\<close> and \<open>nb\<close> in \<open>neighbors[r]\<close>; \<open>neighbors[r]\<close> raises \<open>KeyError\<close> for
  the first \<open>r\<close> that is not a key, before any domain has been touched.
\<close>

definition AC3 :: "domains \<Rightarrow> neighbors \<Rightarrow> nat \<Rightarrow> bool result \<times> domains" where
  "AC3 domains neighbors n =
     (if n > length neighbors then (Raise KeyError, domains)
      else AC3_loop neighbors
             (concat (map (\<lambda>r. map (\<lambda>nb. (r, nb)) (neighbors ! r)) [0..<n])) domains)"

subsection \<open>heuristics.py\<close>

text \<open>
  Both heuristics return, next to their result, the state in which they leave the objects
  they were passed (\<open>domains\<close>, \<open>unassigned_rows\<close>, \<open>neighbors\<close>).

  \<open>select_unassigned_row(domains, unassigned_rows, neighbors)\<close>, lines 10-17:
  \<open>unassigned_rows.sort(key=...)\<close> sorts the list that was passed in, in place and stably, by
  the key \<open>(len(domains[r]), -len(neighbors[r]))\<close>, compared lexicographically; then
  \<open>unassigned_rows[0]\<close> is returned. Python computes all keys before it moves any element,
  so a \<open>KeyError\<close> in the key function leaves the list as it was. \<open>sort_key\<close> is the stable
  insertion sort of the HOL library.
\<close>

definition mrv_key :: "domains \<Rightarrow> neighbors \<Rightarrow> nat \<Rightarrow> nat \<times> int" where
  "mrv_key domains neighbors r = (length (domains ! r), - int (length (neighbors ! r)))"

definition select_unassigned_row ::
  "domains \<Rightarrow> nat list \<Rightarrow> neighbors \<Rightarrow> nat result \<times> (domains \<times> nat list \<times> neighbors)" where
  "select_unassigned_row domains unassigned_rows neighbors =
     (if list_ex (\<lambda>r. r \<ge> length domains \<or> r \<ge> length neighbors) unassigned_rows
      then (Raise KeyError, (domains, unassigned_rows, neighbors))
      else let sorted_rows = sort_key (mrv_key domains neighbors) unassigned_rows in
           if sorted_rows = [] then (Raise IndexError, (domains, sorted_rows, neighbors))
           else (Ret (sorted_rows ! 0), (domains, sorted_rows, neighbors)))"

text \<open>
  \<open>order_domain_values(row, domains, neighbors)\<close>, lines 19-34. \<open>values\<close> is a fresh list
  copy of \<open>domains[row]\<close>; \<open>constraining_cost\<close> is the nested counting loop of lines 25-31.
  The key function runs once per value, so \<open>neighbors[row]\<close> and \<open>domains[nb]\<close> are looked
  up only when \<open>values\<close> is not empty.
\<close>

definition constraining_cost :: "nat \<Rightarrow> domains \<Rightarrow> neighbors \<Rightarrow> int \<Rightarrow> nat" where
  "constraining_cost row domains neighbors col =
     fold (\<lambda>nb cost.
             fold (\<lambda>val cost. if conflict (int row) col (int nb) val then cost + 1 else cost)
                  (domains ! nb) cost)
          (neighbors ! row) 0"

definition order_domain_values ::
  "nat \<Rightarrow> domains \<Rightarrow> neighbors \<Rightarrow> int list result \<times> (domains \<times> neighbors)" where
  "order_domain_values row domains neighbors =
     (if row \<ge> length domains then (Raise KeyError, (domains, neighbors))
      else let vals = domains ! row in
           if vals \<noteq> [] \<and>
              (row \<ge> length neighbors \<or> list_ex (\<lambda>nb. nb \<ge> length domains) (neighbors ! row))
           then (Raise KeyError, (domains, neighbors))
           else (Ret (sort_key (constraining_cost row domains neighbors) vals),
                 (domains, neighbors)))"

subsection \<open>backtracking.py\<close>

text \<open>
  The quick check of lines 31-32: does \<open>(row, col)\<close> conflict with a row of \<open>range(n)\<close> that
  is already assigned? The lookups \<open>assignment[r2]\<close> cannot raise here, since line 19 has read
  \<open>assignment[r]\<close> for every \<open>r\<close> in \<open>range(n)\<close> before.
\<close>

definition quick_conflict :: "nat \<Rightarrow> int \<Rightarrow> assignment \<Rightarrow> nat \<Rightarrow> bool" where
  "quick_conflict row col assignment n =
     list_ex (\<lambda>r2. case assignment ! r2 of
                     None \<Rightarrow> False
                   | Some c2 \<Rightarrow> conflict (int row) col (int r2) c2) [0..<n]"

text \<open>The restoring loop of lines 49-50: \<open>for r in range(n): domains[r] = saved_domains[r]\<close>.\<close>

definition restore :: "domains \<Rightarrow> domains \<Rightarrow> nat \<Rightarrow> domains" where
  "restore domains saved_domains n = fold (\<lambda>r d. d[r := saved_domains ! r]) [0..<n] domains"

text \<open>
  \<open>backtracking_search(domains, neighbors, assignment, n)\<close>, lines 9-52, and its loop over
  \<open>candidate_cols\<close> (lines 29-50) as the second function \<open>try_candidates\<close>. Both return the
  outcome with the state of \<open>domains\<close> and \<open>assignment\<close>. The loop body, in source order:
  quick check, \<open>assignment[row] = col\<close>, the snapshot \<open>saved_domains\<close> of the domains of
  \<open>range(n)\<close> (raising \<open>KeyError\<close> when a row of \<open>range(n)\<close> has no domain),
  \<open>domains[row] = {col}\<close>, \<open>AC3\<close>, the recursive call, and on failure
  \<open>assignment[row] = None\<close> and the restoring loop. The next iteration continues from the
  state the failed branch has left behind.
\<close>

function backtracking_search ::
    "domains \<Rightarrow> neighbors \<Rightarrow> assignment \<Rightarrow> nat \<Rightarrow> bool result \<times> domains \<times> assignment"
  and try_candidates ::
    "nat \<Rightarrow> int list \<Rightarrow> domains \<Rightarrow> neighbors \<Rightarrow> assignment \<Rightarrow> nat
       \<Rightarrow> bool result \<times> domains \<times> assignment"
where
  "backtracking_search domains neighbors assignment n =
     (if n > length assignment then (Raise KeyError, domains, assignment)
      else let unassigned_rows = filter (\<lambda>r. assignment ! r = None) [0..<n] in
        if unassigned_rows = [] then (Ret True, domains, assignment)
        else case select_unassigned_row domains unassigned_rows neighbors of
               (Raise e, (d1, u1, nb1)) \<Rightarrow> (Raise e, d1, assignment)
             | (Ret row, (d1, u1, nb1)) \<Rightarrow>
                 (case order_domain_values row d1 nb1 of
                    (Raise e, (d2, nb2)) \<Rightarrow> (Raise e, d2, assignment)
                  | (Ret candidate_cols, (d2, nb2)) \<Rightarrow>
                      try_candidates row candidate_cols d2 nb2 assignment n))"
| "try_candidates row [] domains neighbors assignment n = (Ret False, domains, assignment)"
| "try_candidates row (col # cols) domains neighbors assignment n =
     (if quick_conflict row col assignment n
      then try_candidates row cols domains neighbors assignment n
      else let a1 = assignment[row := Some col] in
        if n > length domains then (Raise KeyError, domains, a1)
        else let saved_domains = take n domains;
                 d1 = domains[row := [col]]
             in case AC3 d1 neighbors n of
                  (Raise e, d2) \<Rightarrow> (Raise e, d2, a1)
                | (Ret False, d2) \<Rightarrow>
                    try_candidates row cols (restore d2 saved_domains n) neighbors
                      (a1[row := None]) n
                | (Ret True, d2) \<Rightarrow>
                    (case backtracking_search d2 neighbors a1 n of
                       (Ret False, d3, a3) \<Rightarrow>
                         try_candidates row cols (restore d3 saved_domains n) neighbors
                           (a3[row := None]) n
                     | r \<Rightarrow> r))"
  by pat_completeness auto


subsection \<open>Termination of the backtracking search\<close>

lemma select_unassigned_row_Ret:
  assumes "select_unassigned_row d u nb = (Ret row, (d1, u1, nb1))"
  shows "row \<in> set u" and "d1 = d" and "nb1 = nb" and "row < length d" and "row < length nb"
    and "u1 = sort_key (mrv_key d nb) u"
proof -
  let ?s = "sort_key (mrv_key d nb) u"
  from assms have ok: "\<not> list_ex (\<lambda>r. r \<ge> length d \<or> r \<ge> length nb) u"
    and ne: "?s \<noteq> []" and row: "row = ?s ! 0" and "d1 = d" "nb1 = nb" "u1 = ?s"
    by (auto simp add: select_unassigned_row_def Let_def split: if_splits)
  then show "d1 = d" "nb1 = nb" "u1 = ?s" by auto
  from ne row have "row \<in> set ?s" by (metis length_greater_0_conv nth_mem)
  then show "row \<in> set u" by simp
  with ok show "row < length d" "row < length nb" by (auto simp add: list_ex_iff)
qed

lemma select_unassigned_row_Raise:
  assumes "select_unassigned_row d u nb = (Raise e, (d1, u1, nb1))"
  shows "d1 = d" and "nb1 = nb"
  using assms by (auto simp add: select_unassigned_row_def Let_def split: if_splits)

lemma order_domain_values_Ret:
  assumes "order_domain_values row d nb = (Ret cols, (d2, nb2))"
  shows "d2 = d" and "nb2 = nb" and "row < length d"
    and "cols = sort_key (constraining_cost row d nb) (d ! row)"
  using assms by (auto simp add: order_domain_values_def Let_def split: if_splits)

lemma order_domain_values_Raise:
  assumes "order_domain_values row d nb = (Raise e, (d2, nb2))"
  shows "d2 = d" and "nb2 = nb"
  using assms by (auto simp add: order_domain_values_def Let_def split: if_splits)

text \<open>
  The search never unassigns a row that was assigned when it was called; the loop over the
  candidates of \<open>row\<close> never unassigns another row than \<open>row\<close>. This is first shown on the
  domain of the two functions, since the termination proof needs it for the state that a
  failed recursive call returns.
\<close>

definition kept :: "assignment \<Rightarrow> assignment \<Rightarrow> bool" where
  "kept a a' \<longleftrightarrow> length a' = length a \<and> (\<forall>i<length a. a ! i \<noteq> None \<longrightarrow> a' ! i = a ! i)"

definition kept_except :: "nat \<Rightarrow> assignment \<Rightarrow> assignment \<Rightarrow> bool" where
  "kept_except row a a' \<longleftrightarrow>
     length a' = length a \<and> (\<forall>i<length a. i \<noteq> row \<longrightarrow> a ! i \<noteq> None \<longrightarrow> a' ! i = a ! i)"

lemma kept_refl: "kept a a" by (simp add: kept_def)
lemma kept_except_refl: "kept_except row a a" by (simp add: kept_except_def)
lemma kept_except_upd: "kept_except row a (a[row := v])" by (simp add: kept_except_def)

lemma kept_exceptI:
  assumes "a ! row = None" "kept_except row a a'" shows "kept a a'"
  using assms unfolding kept_def kept_except_def by (metis)

lemma kept_except_step:
  assumes "kept (a[row := Some col]) a3" "kept_except row (a3[row := None]) a'"
  shows "kept_except row a a'"
  using assms unfolding kept_def kept_except_def
  by (metis length_list_update nth_list_update_neq)

lemma kept_except_step1:
  assumes "kept (a[row := Some col]) a3" 
  shows "kept_except row a a3"
  using assms unfolding kept_def kept_except_def
  by (metis length_list_update nth_list_update_neq)

lemma kept_except_step2:
  assumes "kept_except row (a[row := x, row := y]) a'"
  shows "kept_except row a a'"
  using assms unfolding kept_def kept_except_def
  by (metis length_list_update nth_list_update_neq)

lemma unassigned_row_None:
  assumes "row \<in> set (filter (\<lambda>r. a ! r = None) [0..<n])"
  shows "a ! row = None" "row < n"
  using assms by auto

lemma bs_kept_dom:
  "backtracking_search_try_candidates_dom (Inl (d, nb, a, n)) \<Longrightarrow>
     kept a (snd (snd (backtracking_search d nb a n)))"
  "backtracking_search_try_candidates_dom (Inr (row, cols, d, nb, a, n)) \<Longrightarrow>
     kept_except row a (snd (snd (try_candidates row cols d nb a n)))"
proof (induction d nb a n and row cols d nb a n rule: backtracking_search_try_candidates.pinduct)
  case (1 domains neighbors assignment n)
  let ?u = "filter (\<lambda>r. assignment ! r = None) [0..<n]"
  show ?case
  proof (cases "n > length assignment \<or> ?u = []")
    case True
    then show ?thesis using 1(1) by (auto simp add: backtracking_search.psimps kept_refl)
  next
    case False
    obtain r1 d1 u1 nb1 where sel: "select_unassigned_row domains ?u neighbors = (r1, (d1, u1, nb1))"
      by (metis prod_cases4)
    show ?thesis
    proof (cases r1)
      case (Inl e)
      then show ?thesis using 1(1) False sel
        by (simp add: backtracking_search.psimps kept_refl)
    next
      case (Inr row)
      note s = select_unassigned_row_Ret[OF sel[unfolded Inr]]
      obtain r2 d2 nb2 where ord: "order_domain_values row d1 nb1 = (r2, (d2, nb2))"
        by (metis prod_cases3)
      show ?thesis
      proof (cases r2)
        case (Inl e)
        then show ?thesis using 1(1) False sel ord \<open>r1 = Inr row\<close>
          by (simp add: backtracking_search.psimps kept_refl)
      next
        case (Inr cols)
        have "kept_except row assignment (snd (snd (try_candidates row cols d2 nb2 assignment n)))"
          using 1(2)[of ?u r1 "(d1, u1, nb1)" row d1 "(u1, nb1)" u1 nb1 r2 "(d2, nb2)" cols d2 nb2]
            False sel ord \<open>r1 = Inr row\<close> Inr by simp
        moreover have "assignment ! row = None" using s(1) by simp
        ultimately have "kept assignment (snd (snd (try_candidates row cols d2 nb2 assignment n)))"
          by (rule kept_exceptI[rotated])
        then show ?thesis using 1(1) False sel ord \<open>r1 = Inr row\<close> Inr
          by (simp add: backtracking_search.psimps)
      qed
    qed
  qed
next
  case (2 row domains neighbors assignment n)
  then show ?case by (simp add: try_candidates.psimps kept_except_refl)
next
  case (3 row col cols domains neighbors assignment n)
  let ?a1 = "assignment[row := Some col]"
  let ?d1 = "domains[row := [col]]"
  let ?saved = "take n domains"
  show ?case
  proof (cases "quick_conflict row col assignment n")
    case True
    then show ?thesis using 3(1) 3(2) by (simp add: try_candidates.psimps)
  next
    case qc: False
    show ?thesis
    proof (cases "n > length domains")
      case True
      then show ?thesis using 3(1) qc by (simp add: try_candidates.psimps kept_except_upd)
    next
      case len: False
      obtain r2 d2 where ac: "AC3 ?d1 neighbors n = (r2, d2)" by (metis prod.exhaust)
      show ?thesis
      proof (cases r2)
        case (Inl e)
        then show ?thesis using 3(1) qc len ac by (simp add: try_candidates.psimps kept_except_upd)
      next
        case (Inr b)
        show ?thesis
        proof (cases b)
          case False
          have "kept_except row (?a1[row := None])
                  (snd (snd (try_candidates row cols (restore d2 ?saved n) neighbors (?a1[row := None]) n)))"
            using 3(5)[of ?a1 ?saved ?d1 r2 d2 b] qc len ac Inr False by simp
          then have "kept_except row assignment
                  (snd (snd (try_candidates row cols (restore d2 ?saved n) neighbors (?a1[row := None]) n)))"
            by (rule kept_except_step2)
          then show ?thesis using 3(1) qc len ac Inr False by (simp add: try_candidates.psimps)
        next
          case True
          obtain r3 d3 a3 where bs: "backtracking_search d2 neighbors ?a1 n = (r3, d3, a3)"
            by (metis prod_cases3)
          have k1: "kept ?a1 a3"
            using 3(3)[of ?a1 ?saved ?d1 r2 d2 b] qc len ac Inr True bs by simp
          show ?thesis
          proof (cases "r3 = Ret False")
            case True
            have "kept_except row (a3[row := None])
                  (snd (snd (try_candidates row cols (restore d3 ?saved n) neighbors (a3[row := None]) n)))"
              using 3(4)[of ?a1 ?saved ?d1 r2 d2 b r3 "(d3, a3)" False d3 a3] qc len ac Inr \<open>b\<close> bs True
              by simp
            with k1 have "kept_except row assignment
                  (snd (snd (try_candidates row cols (restore d3 ?saved n) neighbors (a3[row := None]) n)))"
              by (rule kept_except_step)
            then show ?thesis using 3(1) qc len ac Inr \<open>b\<close> bs True by (simp add: try_candidates.psimps)
          next
            case False
            have "try_candidates row (col # cols) domains neighbors assignment n = (r3, d3, a3)"
              using 3(1) qc len ac Inr \<open>b\<close> bs False
              by (auto simp add: try_candidates.psimps split: sum.splits bool.splits)
            then show ?thesis using kept_except_step1[OF k1] by simp
          qed
        qed
      qed
    qed
  qed
qed


text \<open>
  The rows of \<open>range(n)\<close> that are unassigned. The recursion descends lexicographically in:
  the number of unassigned rows (for the loop: those other than \<open>row\<close>, plus one), then the
  search before its loop, then the number of candidates left.
\<close>

definition unassigned :: "nat \<Rightarrow> assignment \<Rightarrow> nat set" where
  "unassigned n a = {r. r < n \<and> r < length a \<and> a ! r = None}"

lemma finite_unassigned: "finite (unassigned n a)"
  by (simp add: unassigned_def)

lemma unassigned_update_diff: "unassigned n (a[row := v]) - {row} = unassigned n a - {row}"
  by (auto simp add: unassigned_def)

lemma unassigned_update_Some: "unassigned n (a[row := Some c]) = unassigned n a - {row}"
proof (cases "row < length a")
  case True
  then show ?thesis by (auto simp add: unassigned_def nth_list_update split: if_splits)
next
  case False
  then show ?thesis by (auto simp add: unassigned_def)
qed

lemma kept_unassigned: "kept a a' \<Longrightarrow> unassigned n a' \<subseteq> unassigned n a"
  unfolding kept_def unassigned_def by force

definition bs_measure1 ::
  "(domains \<times> neighbors \<times> assignment \<times> nat) + (nat \<times> int list \<times> domains \<times> neighbors \<times> assignment \<times> nat) \<Rightarrow> nat" where
  "bs_measure1 x = (case x of
      Inl (d, nb, a, n) \<Rightarrow> card (unassigned n a)
    | Inr (row, cols, d, nb, a, n) \<Rightarrow> card (unassigned n a - {row}) + 1)"

definition bs_measure2 ::
  "(domains \<times> neighbors \<times> assignment \<times> nat) + (nat \<times> int list \<times> domains \<times> neighbors \<times> assignment \<times> nat) \<Rightarrow> nat" where
  "bs_measure2 x = (case x of
      Inl (d, nb, a, n) \<Rightarrow> 1
    | Inr (row, cols, d, nb, a, n) \<Rightarrow> 0)"

definition bs_measure3 ::
  "(domains \<times> neighbors \<times> assignment \<times> nat) + (nat \<times> int list \<times> domains \<times> neighbors \<times> assignment \<times> nat) \<Rightarrow> nat" where
  "bs_measure3 x = (case x of
      Inl (d, nb, a, n) \<Rightarrow> 0
    | Inr (row, cols, d, nb, a, n) \<Rightarrow> length cols)"

lemma backtracking_total: "All backtracking_search_try_candidates_dom"
proof (relation "measures [bs_measure1, bs_measure2, bs_measure3]", goal_cases)
  case 1
  show ?case by simp
next
  case (2 domains neighbors assignment n x xa y b xb ya xc yb xd yc ba xe yd)
  then have sel: "select_unassigned_row domains x neighbors = (Ret b, (xb, xc, yb))" by simp
  from select_unassigned_row_Ret(1)[OF sel] 2(2) have "b < n" "assignment ! b = None"
    by simp_all
  with 2(1) have "b \<in> unassigned n assignment"
    by (simp add: unassigned_def)
  then have "card (unassigned n assignment - {b}) + 1 = card (unassigned n assignment)"
    using card_Suc_Diff1[OF finite_unassigned, of b n assignment] by simp
  then show ?case by (simp add: bs_measure1_def bs_measure2_def)
next
  case (3 row col cols domains neighbors assignment n)
  show ?case by (simp add: bs_measure1_def bs_measure2_def bs_measure3_def)
next
  case (4 row col cols domains neighbors assignment n x xa xb xc y b)
  show ?case unfolding 4(2) by (simp add: bs_measure1_def unassigned_update_Some)
next
  case (5 row col cols domains neighbors assignment n x xa xb xc y b xba ya ba xd yb)
  from 5(9,12) have "backtracking_search y neighbors x n = (xba, xd, yb)"
    by simp
  with bs_kept_dom(1)[OF 5(13)] have "kept x yb"
    by simp
  then have "kept (assignment[row := Some col]) yb" unfolding 5(2) .
  then have "unassigned n yb \<subseteq> unassigned n (assignment[row := Some col])"
    by (rule kept_unassigned)
  then have "unassigned n yb - {row} \<subseteq> unassigned n assignment - {row}"
    unfolding unassigned_update_Some by blast
  then have "unassigned n (yb[row := None]) - {row} \<subseteq> unassigned n assignment - {row}"
    unfolding unassigned_update_diff .
  then have "card (unassigned n (yb[row := None]) - {row}) \<le> card (unassigned n assignment - {row})"
    by (intro card_mono) (auto simp add: finite_unassigned)
  then show ?case by (auto simp add: bs_measure1_def bs_measure2_def bs_measure3_def)
next
  case (6 row col cols domains neighbors assignment n x xa xb xc y b)
  show ?case unfolding 6(2)
    by (simp add: bs_measure1_def bs_measure2_def bs_measure3_def unassigned_update_diff)
qed

termination backtracking_search
  by (rule backtracking_total)


subsection \<open>\<open>nqueens_csp.py\<close>\<close>

text \<open>
  \<open>solve_nqueens_csp(n)\<close>, lines 12-35. \<open>set(range(n))\<close> is iterated in ascending order.
  The result is the assignment dictionary on success and \<open>None\<close> otherwise.
\<close>

definition solve_nqueens_csp :: "nat \<Rightarrow> assignment option result" where
  "solve_nqueens_csp n =
     (let domains = map (\<lambda>r. map int [0..<n]) [0..<n];
          neighbors = map (\<lambda>r. filter (\<lambda>x. x \<noteq> r) [0..<n]) [0..<n];
          assignment = map (\<lambda>r. None) [0..<n]
      in case AC3 domains neighbors n of
           (Raise e, d) \<Rightarrow> Raise e
         | (Ret False, d) \<Rightarrow> Ret None
         | (Ret True, d) \<Rightarrow>
             (case backtracking_search d neighbors assignment n of
                (Raise e, d', a) \<Rightarrow> Raise e
              | (Ret success, d', a) \<Rightarrow> Ret (if success then Some a else None)))"

section \<open>The conflict relation\<close>

text \<open>
  Claim C5. \<open>conflict(row1, col1, row2, col2)\<close> is true if and only if \<open>col1 = col2\<close> or
  \<open>|row1 - row2| = |col1 - col2|\<close>; it is symmetric under swapping the two (row, column)
  pairs; and two queens in the same column always conflict (for distinct rows in particular:
  the statement holds for any two rows). The function is a pure function of its four
  arguments.
\<close>

theorem conflict_characterisation:
  "(conflict r1 c1 r2 c2 \<longleftrightarrow> c1 = c2 \<or> \<bar>r1 - r2\<bar> = \<bar>c1 - c2\<bar>)
   \<and> conflict r1 c1 r2 c2 = conflict r2 c2 r1 c1
   \<and> conflict r1 c r2 c"
  by (auto simp add: conflict_def)

section \<open>Arc consistency (ac3.py)\<close>

text \<open>The arcs that line 25-27 of ac3.py append after a removal from \<open>domains[Xi]\<close>.\<close>

definition requeue :: "neighbors \<Rightarrow> nat \<Rightarrow> nat \<Rightarrow> (nat \<times> nat) list" where
  "requeue nb Xi Xj = map (\<lambda>Xk. (Xk, Xi)) (filter (\<lambda>Xk. Xk \<noteq> Xj) (nb ! Xi))"

text \<open>
  An invariant rule for the propagation loop: a predicate \<open>I\<close> on queue and domains that
  holds at entry and is kept by both kinds of iteration (nothing removed; something removed
  and the arc's neighbours appended) yields \<open>P\<close> of the outcome, provided each of the four
  exits establishes \<open>P\<close>.
\<close>

lemma AC3_loop_rule:
  assumes inv: "I q d"
    and same: "\<And>Xi Xj q d. I ((Xi, Xj) # q) d \<Longrightarrow> revise d Xi Xj = (Ret False, d) \<Longrightarrow> I q d"
    and removed: "\<And>Xi Xj q d d1. I ((Xi, Xj) # q) d \<Longrightarrow> revise d Xi Xj = (Ret True, d1) \<Longrightarrow>
        d1 ! Xi \<noteq> [] \<Longrightarrow> Xi < length nb \<Longrightarrow> I (q @ requeue nb Xi Xj) d1"
    and exhausted: "\<And>d. I [] d \<Longrightarrow> P (Ret True, d)"
    and wipeout: "\<And>Xi Xj q d d1. I ((Xi, Xj) # q) d \<Longrightarrow> revise d Xi Xj = (Ret True, d1) \<Longrightarrow>
        d1 ! Xi = [] \<Longrightarrow> P (Ret False, d1)"
    and revise_error: "\<And>Xi Xj q d e d1. I ((Xi, Xj) # q) d \<Longrightarrow> revise d Xi Xj = (Raise e, d1) \<Longrightarrow>
        P (Raise e, d1)"
    and neighbors_error: "\<And>Xi Xj q d d1. I ((Xi, Xj) # q) d \<Longrightarrow> revise d Xi Xj = (Ret True, d1) \<Longrightarrow>
        d1 ! Xi \<noteq> [] \<Longrightarrow> Xi \<ge> length nb \<Longrightarrow> P (Raise KeyError, d1)"
  shows "P (AC3_loop nb q d)"
proof -
  have "neighbors = nb \<Longrightarrow> I q d \<Longrightarrow> P (AC3_loop neighbors q d)" for neighbors
proof (induction neighbors q d rule: AC3_loop.induct)
  case (1 neighbors domains)
  then show ?case by (simp add: exhausted)
next
  case (2 neighbors Xi Xj queue domains)
  note nb = \<open>neighbors = nb\<close>
  note 2 = 2(1,2,4)
  obtain r d1 where rv: "revise domains Xi Xj = (r, d1)" by (metis prod.exhaust)
  show ?case
  proof (cases r)
    case (Inl e)
    with rv 2(3) revise_error show ?thesis by simp
  next
    case (Inr b)
    show ?thesis
    proof (cases b)
      case False
      with rv Inr have rv': "revise domains Xi Xj = (Ret False, d1)" by simp
      then have "d1 = domains" by (rule revise_False_same)
      with rv' same[OF 2(3)] have "I queue d1" by simp
      with 2(2)[of r d1 b] rv Inr False nb show ?thesis by simp
    next
      case True
      with rv Inr have rv': "revise domains Xi Xj = (Ret True, d1)" by simp
      show ?thesis
      proof (cases "d1 ! Xi = []")
        case e: True
        with wipeout[OF 2(3) rv'] rv' show ?thesis by simp
      next
        case ne: False
        show ?thesis
        proof (cases "Xi < length neighbors")
          case False
          with neighbors_error[OF 2(3) rv' ne] rv' ne nb show ?thesis by simp
        next
          case lt: True
          from removed[OF 2(3) rv' ne] lt nb have "I (queue @ requeue neighbors Xi Xj) d1" by simp
          with 2(1)[of r d1 b] rv Inr True ne lt nb show ?thesis
            by (simp add: requeue_def)
        qed
      qed
    qed
  qed
qed
  from this[OF refl inv] show ?thesis .
qed


subsection \<open>Vocabulary of the specification\<close>

text \<open>
  A value \<open>v\<close> of \<open>Xi\<close> is supported by \<open>Xj\<close> when some value \<open>w\<close> of \<open>domains[Xj]\<close> does not
  conflict with it.
\<close>

definition supported :: "domains \<Rightarrow> nat \<Rightarrow> int \<Rightarrow> nat \<Rightarrow> bool" where
  "supported d Xi v Xj = list_ex (\<lambda>w. \<not> conflict (int Xi) v (int Xj) w) (d ! Xj)"

text \<open>\<open>d'\<close> has the rows of \<open>d\<close>, and each domain of \<open>d'\<close> is a subset of that of \<open>d\<close>.\<close>

definition shrinks :: "domains \<Rightarrow> domains \<Rightarrow> bool" where
  "shrinks d d' = list_all2 (\<lambda>a b. set b \<subseteq> set a) d d'"

lemma shrinks_iff:
  "shrinks d d' \<longleftrightarrow> length d' = length d \<and> (\<forall>i<length d. set (d' ! i) \<subseteq> set (d ! i))"
  by (auto simp add: shrinks_def list_all2_conv_all_nth)

lemma shrinks_refl: "shrinks d d"
  by (simp add: shrinks_iff)

lemma shrinks_trans: "shrinks d d1 \<Longrightarrow> shrinks d1 d2 \<Longrightarrow> shrinks d d2"
  unfolding shrinks_iff by (metis subset_trans)

lemma shrinks_update_filter: "shrinks d (d[i := filter P (d ! i)])"
proof -
  have "set (d[i := filter P (d ! i)] ! j) \<subseteq> set (d ! j)" if "j < length d" for j
    using that by (cases "j = i") auto
  then show ?thesis by (simp add: shrinks_iff)
qed

lemma conflict_with_all_supported: "conflict_with_all d Xi Xj v = (\<not> supported d Xi v Xj)"
  by (simp add: conflict_with_all_def supported_def list_all_iff list_ex_iff)


lemma revise_Ret_supported:
  assumes "revise d Xi Xj = (Ret b, d1)"
  shows "Xi < length d"
    and "d1 = d[Xi := filter (\<lambda>v. supported d Xi v Xj) (d ! Xi)]"
    and "b = (\<exists>v\<in>set (d ! Xi). \<not> supported d Xi v Xj)"
    and "d ! Xi \<noteq> [] \<Longrightarrow> Xj < length d"
  using revise_Ret[OF assms] by (simp_all add: conflict_with_all_supported)

lemma revise_Raise:
  assumes "revise d Xi Xj = (Raise e, d1)"
  shows "d1 = d" and "e = KeyError"
    and "Xi \<ge> length d \<or> (d ! Xi \<noteq> [] \<and> Xj \<ge> length d)"
  using assms by (auto simp add: revise_def Let_def split: if_splits)

lemma revise_shrinks: "shrinks d (snd (revise d Xi Xj))"
proof (cases "revise d Xi Xj")
  case (Pair r d1)
  show ?thesis
  proof (cases r)
    case (Inl e)
    with Pair revise_Raise(1)[of d Xi Xj e d1] show ?thesis by (simp add: shrinks_refl)
  next
    case (Inr b)
    with Pair revise_Ret_supported(2)[of d Xi Xj b d1] show ?thesis
      by (simp add: shrinks_update_filter)
  qed
qed

lemma AC3_loop_shrinks: "shrinks d (snd (AC3_loop nb q d))"
proof (rule AC3_loop_rule[where I = "\<lambda>q d'. shrinks d d'" and P = "\<lambda>res. shrinks d (snd res)"],
    goal_cases inv same removed exhausted wipeout revise_error neighbors_error)
  case inv
  show ?case by (rule shrinks_refl)
next
  case (same Xi Xj q d)
  then show ?case by simp
next
  case (removed Xi Xj q d' d1)
  from revise_shrinks[of d' Xi Xj] removed(2) have "shrinks d' d1" by simp
  with removed(1) show ?case by (rule shrinks_trans)
next
  case (exhausted d)
  then show ?case by simp
next
  case (wipeout Xi Xj q d' d1)
  from revise_shrinks[of d' Xi Xj] wipeout(2) have "shrinks d' d1" by simp
  with wipeout(1) show ?case by (simp add: shrinks_trans)
next
  case (revise_error Xi Xj q d' e d1)
  from revise_shrinks[of d' Xi Xj] revise_error(2) have "shrinks d' d1" by simp
  with revise_error(1) show ?case by (simp add: shrinks_trans)
next
  case (neighbors_error Xi Xj q d' d1)
  from revise_shrinks[of d' Xi Xj] neighbors_error(2) have "shrinks d' d1" by simp
  with neighbors_error(1) show ?case by (simp add: shrinks_trans)
qed


text \<open>
  Arc consistency, in the words of the specification: every value in the domain of every
  variable \<open>Xi\<close> of \<open>range(n)\<close> has, for every neighbour \<open>Xj\<close> of \<open>Xi\<close>, a value in the domain
  of \<open>Xj\<close> that does not conflict with it.
\<close>

definition arc_consistent :: "domains \<Rightarrow> neighbors \<Rightarrow> nat \<Rightarrow> bool" where
  "arc_consistent d nb n =
     list_all (\<lambda>Xi. list_all (\<lambda>v. list_all (\<lambda>Xj. supported d Xi v Xj) (nb ! Xi)) (d ! Xi)) [0..<n]"

text \<open>
  Well-formed inputs: the rows \<open>0..n-1\<close> are keys of both dictionaries and their neighbours
  are rows of \<open>0..n-1\<close> again (\<open>closed_rows\<close>); the neighbour relation is symmetric
  (\<open>symmetric_neighbors\<close>). The solver's neighbour relation, every row with every other row,
  has both properties.
\<close>

definition closed_rows :: "domains \<Rightarrow> neighbors \<Rightarrow> nat \<Rightarrow> bool" where
  "closed_rows d nb n \<longleftrightarrow>
     n \<le> length d \<and> n \<le> length nb \<and> list_all (\<lambda>r. list_all (\<lambda>x. x < n) (nb ! r)) [0..<n]"

definition symmetric_neighbors :: "neighbors \<Rightarrow> nat \<Rightarrow> bool" where
  "symmetric_neighbors nb n = list_all (\<lambda>r. list_all (\<lambda>x. r \<in> set (nb ! x)) (nb ! r)) [0..<n]"

lemma arc_consistent_iff:
  "arc_consistent d nb n \<longleftrightarrow>
     (\<forall>Xi<n. \<forall>v\<in>set (d ! Xi). \<forall>Xj\<in>set (nb ! Xi). supported d Xi v Xj)"
  by (auto simp add: arc_consistent_def list_all_iff)

lemma closed_rows_iff:
  "closed_rows d nb n \<longleftrightarrow>
     n \<le> length d \<and> n \<le> length nb \<and> (\<forall>r<n. \<forall>x\<in>set (nb ! r). x < n)"
  by (auto simp add: closed_rows_def list_all_iff)

lemma symmetric_neighbors_iff:
  "symmetric_neighbors nb n \<longleftrightarrow> (\<forall>r<n. \<forall>x\<in>set (nb ! r). r \<in> set (nb ! x))"
  by (auto simp add: symmetric_neighbors_def list_all_iff)


lemma closed_rowsD:
  "closed_rows d nb n \<Longrightarrow> r < n \<Longrightarrow> x \<in> set (nb ! r) \<Longrightarrow> x < n"
  unfolding closed_rows_iff by blast


















text \<open>The initial queue of \<open>AC3\<close>.\<close>

definition all_arcs :: "neighbors \<Rightarrow> nat \<Rightarrow> (nat \<times> nat) list" where
  "all_arcs nb n = concat (map (\<lambda>r. map (\<lambda>x. (r, x)) (nb ! r)) [0..<n])"

lemma set_all_arcs: "set (all_arcs nb n) = {(r, x). r < n \<and> x \<in> set (nb ! r)}"
  by (auto simp add: all_arcs_def)

lemma AC3_shrinks: "shrinks d (snd (AC3 d nb n))"
  using AC3_loop_shrinks[of d nb "all_arcs nb n"]
  by (simp add: AC3_def all_arcs_def shrinks_refl)

lemma AC3_length: "AC3 d nb n = (r, d') \<Longrightarrow> length d' = length d"
  using AC3_shrinks[of d nb n] by (simp add: shrinks_iff)




text \<open>
  The symmetry of the neighbour relation is used: after a removal from \<open>domains[Xi]\<close> the
  loop re-enqueues \<open>(Xk, Xi)\<close> for the \<open>Xk\<close> in \<open>neighbors[Xi]\<close>, which are the rows that have
  \<open>Xi\<close> as a neighbour only when the relation is symmetric. For a relation that is not
  symmetric, which the solver never builds, an arc can be missed: with
  \<open>neighbors = {0: [1], 1: [2], 2: []}\<close> the value 5 of row 1 is removed after the arc
  \<open>(0, 1)\<close> has been checked, and the value 0 of row 0 is left without support.
\<close>

lemma AC3_asymmetric_neighbors:
  "closed_rows [[0], [1, 5], [5]] [[1], [2], []] 3
   \<and> \<not> symmetric_neighbors [[1], [2], []] 3
   \<and> AC3 [[0], [1, 5], [5]] [[1], [2], []] 3 = (Ret True, [[0], [1], [5]])
   \<and> \<not> arc_consistent [[0], [1], [5]] [[1], [2], []] 3"
  by code_simp

text \<open>
  Claim C7. If the domains passed to \<open>AC3\<close> are already arc consistent, \<open>AC3\<close> returns
  success and leaves every domain as it was. The rows \<open>0..n-1\<close> and their neighbours have to
  be keys of the dictionaries (\<open>closed_rows\<close>), as they are in the solver; otherwise the
  call raises \<open>KeyError\<close>.
\<close>

theorem AC3_idempotent:
  assumes cl: "closed_rows d nb n" and ac: "arc_consistent d nb n"
  shows "AC3 d nb n = (Ret True, d)"
proof -
  let ?I = "\<lambda>q d'. d' = d \<and> (\<forall>(Xi, Xj)\<in>set q. Xi < n \<and> Xj \<in> set (nb ! Xi))"
  have no_removal: False
    if "?I ((Xi, Xj) # q) d'" and "revise d' Xi Xj = (Ret True, d1)" for Xi Xj q d' d1
  proof -
    from that(1) have "d' = d" "Xi < n" "Xj \<in> set (nb ! Xi)" by auto
    with ac have "\<forall>v\<in>set (d' ! Xi). supported d' Xi v Xj" by (simp add: arc_consistent_iff)
    with revise_Ret_supported(3)[OF that(2)] show False by simp
  qed
  have "AC3_loop nb (all_arcs nb n) d = (Ret True, d)"
  proof (rule AC3_loop_rule[where I = ?I and P = "\<lambda>res. res = (Ret True, d)"],
      goal_cases inv same removed exhausted wipeout revise_error neighbors_error)
    case inv
    show ?case by (simp add: set_all_arcs)
  next
    case (same Xi Xj q d)
    then show ?case by simp
  next
    case (removed Xi Xj q d d1)
    from no_removal[OF removed(1,2)] show ?case ..
  next
    case (exhausted d)
    then show ?case by simp
  next
    case (wipeout Xi Xj q d d1)
    from no_removal[OF wipeout(1,2)] show ?case ..
  next
    case (revise_error Xi Xj q d' e d1)
    from revise_error(1) have "d' = d" "Xi < n" "Xj \<in> set (nb ! Xi)" by auto
    moreover from cl have "n \<le> length d" by (simp add: closed_rows_iff)
    moreover note closed_rowsD[OF cl, of Xi Xj]
    ultimately have "Xi < length d'" "Xj < length d'" by simp_all
    with revise_Raise(3)[OF revise_error(2)] show ?case by simp
  next
    case (neighbors_error Xi Xj q d d1)
    from no_removal[OF neighbors_error(1,2)] show ?case ..
  qed
  with cl show ?thesis by (simp add: AC3_def all_arcs_def closed_rows_iff)
qed

theorem AC3_idempotent_witness:
  "closed_rows [[1], [3], [0], [2]] [[1, 2, 3], [0, 2, 3], [0, 1, 3], [0, 1, 2]] 4
   \<and> arc_consistent [[1], [3], [0], [2]] [[1, 2, 3], [0, 2, 3], [0, 1, 3], [0, 1, 2]] 4
   \<and> AC3 [[1], [3], [0], [2]] [[1, 2, 3], [0, 2, 3], [0, 1, 3], [0, 1, 2]] 4
       = (Ret True, [[1], [3], [0], [2]])"
proof -
  have c: "closed_rows [[1], [3], [0], [2]] [[1, 2, 3], [0, 2, 3], [0, 1, 3], [0, 1, 2]] 4"
    by code_simp
  have a: "arc_consistent [[1], [3], [0], [2]] [[1, 2, 3], [0, 2, 3], [0, 1, 3], [0, 1, 2]] 4"
    by code_simp
  from AC3_idempotent[OF c a] c a show ?thesis by simp
qed

text \<open>
  The loop ends in one of three ways: the queue is exhausted (success), a domain has been
  emptied (failure), or a row that is no key has been looked up.
\<close>

lemma AC3_loop_outcome:
  "fst (AC3_loop nb q d) = Ret True
   \<or> fst (AC3_loop nb q d) = Ret False \<and> [] \<in> set (snd (AC3_loop nb q d))
   \<or> fst (AC3_loop nb q d) = Raise KeyError"
proof (rule AC3_loop_rule[where I = "\<lambda>q d. True"
      and P = "\<lambda>res. fst res = Ret True \<or> fst res = Ret False \<and> [] \<in> set (snd res)
                 \<or> fst res = Raise KeyError"],
    goal_cases inv same removed exhausted wipeout revise_error neighbors_error)
  case (wipeout Xi Xj q d d1)
  from revise_Ret_supported(1)[OF wipeout(2)] revise_shrinks[of d Xi Xj] wipeout(2)
  have "Xi < length d1" by (simp add: shrinks_iff)
  with wipeout(3) have "[] \<in> set d1" by (metis nth_mem)
  then show ?case by simp
next
  case (revise_error Xi Xj q d e d1)
  from revise_Raise(2)[OF revise_error(2)] show ?case by simp
qed simp_all


lemma AC3_outcome:
  "fst (AC3 d nb n) = Ret True
   \<or> fst (AC3 d nb n) = Ret False \<and> [] \<in> set (snd (AC3 d nb n))
   \<or> fst (AC3 d nb n) = Raise KeyError"
  using AC3_loop_outcome[of nb "all_arcs nb n" d] by (simp add: AC3_def all_arcs_def)

text \<open>On well-formed input no lookup fails.\<close>

lemma AC3_well_formed_returns:
  assumes cl: "closed_rows d nb n"
  shows "fst (AC3 d nb n) \<noteq> Raise KeyError"
proof -
  let ?I = "\<lambda>q d'. shrinks d d' \<and> (\<forall>(Xi, Xj)\<in>set q. Xi < n \<and> Xj < n)"
  have "fst (AC3_loop nb (all_arcs nb n) d) \<noteq> Raise KeyError"
  proof (rule AC3_loop_rule[where I = ?I and P = "\<lambda>res. fst res \<noteq> Raise KeyError"],
      goal_cases inv same removed exhausted wipeout revise_error neighbors_error)
    case inv
    show ?case using closed_rowsD[OF cl] by (auto simp add: set_all_arcs shrinks_refl)
  next
    case (same Xi Xj q d)
    then show ?case by simp
  next
    case (removed Xi Xj q d' d1)
    from revise_shrinks[of d' Xi Xj] removed(2) have "shrinks d' d1" by simp
    with removed(1) have 1: "shrinks d d1" by (blast intro: shrinks_trans)
    from removed(1) have Xi: "Xi < n" by simp
    have "A < n \<and> B < n" if "(A, B) \<in> set (requeue nb Xi Xj)" for A B
    proof -
      from that have AB: "A \<in> set (nb ! Xi)" "B = Xi" unfolding requeue_def by auto
      from closed_rowsD[OF cl Xi AB(1)] Xi AB(2) show ?thesis by simp
    qed
    with removed(1) have "\<forall>(A, B)\<in>set (q @ requeue nb Xi Xj). A < n \<and> B < n"
      unfolding set_append by auto
    with 1 show ?case by simp
  next
    case (revise_error Xi Xj q d' e d1)
    from revise_error(1) cl have "Xi < length d'" "Xj < length d'"
      by (auto simp add: closed_rows_iff shrinks_iff)
    with revise_Raise(3)[OF revise_error(2)] show ?case by simp
  next
    case (neighbors_error Xi Xj q d d1)
    with cl show ?case by (auto simp add: closed_rows_iff)
  qed simp_all
  with cl show ?thesis
    by (simp add: AC3_def all_arcs_def closed_rows_iff)
qed

lemma AC3_returns:
  assumes "closed_rows d nb n"
  shows "\<exists>b. fst (AC3 d nb n) = Ret b"
  using AC3_outcome[of d nb n] AC3_well_formed_returns[OF assms] by auto



text \<open>
  Claim C10. After a call of \<open>AC3\<close> or of \<open>revise\<close>, whatever its outcome (success, failure
  or an exception), the dictionary has the same rows and every domain is a subset of what it
  was before the call.
\<close>

theorem AC3_revise_only_remove:
  "length (snd (AC3 d nb n)) = length d
   \<and> (\<forall>r<length d. set (snd (AC3 d nb n) ! r) \<subseteq> set (d ! r))
   \<and> length (snd (revise d Xi Xj)) = length d
   \<and> (\<forall>r<length d. set (snd (revise d Xi Xj) ! r) \<subseteq> set (d ! r))"
proof -
  from AC3_shrinks[of d nb n] revise_shrinks[of d Xi Xj] show ?thesis
    by (simp add: shrinks_iff)
qed

theorem AC3_revise_only_remove_witness:
  "snd (AC3 [[0, 1], [0, 1, 2]] [[1], [0]] 2) = [[0], [2]]
   \<and> set (snd (AC3 [[0, 1], [0, 1, 2]] [[1], [0]] 2) ! 1) \<subseteq> set ([[0, 1], [0, 1, 2]] ! 1)
   \<and> snd (revise [[0, 1], [0, 1, 2]] 1 0) = [[0, 1], [2]]
   \<and> set (snd (revise [[0, 1], [0, 1, 2]] 1 0) ! 1) \<subseteq> set ([[0, 1], [0, 1, 2]] ! 1)"
proof -
  have a: "snd (AC3 [[0, 1], [0, 1, 2]] [[1], [0]] 2) = [[0], [2]]" by code_simp
  have b: "snd (revise [[0, 1], [0, 1, 2]] 1 0) = [[0, 1], [2]]" by code_simp
  from AC3_revise_only_remove[of "[[0, 1], [0, 1, 2]]" "[[1], [0]]" 2 1 0] a b
  show ?thesis by simp
qed

section \<open>Ordering heuristics (heuristics.py)\<close>

text \<open>
  The constraining cost in the words of the specification: the number of pairs (neighbour
  \<open>nb\<close> of \<open>row\<close>, value \<open>val\<close> of \<open>domains[nb]\<close>) that conflict with the candidate value \<open>v\<close>
  of \<open>row\<close>.
\<close>

definition cost_spec :: "nat \<Rightarrow> domains \<Rightarrow> neighbors \<Rightarrow> int \<Rightarrow> nat" where
  "cost_spec row domains neighbors v =
     length (filter (\<lambda>(nb, val). conflict (int row) v (int nb) val)
               (concat (map (\<lambda>nb. map (Pair nb) (domains ! nb)) (neighbors ! row))))"

text \<open>The counting loops of \<open>constraining_cost\<close> compute this number.\<close>

lemma fold_count: "fold (\<lambda>x c. if P x then c + 1 else c) xs (c0::nat) = c0 + length (filter P xs)"
  by (induction xs arbitrary: c0) simp_all

lemma fold_add: "fold (\<lambda>x c. c + f x) xs (c0::nat) = c0 + sum_list (map f xs)"
  by (induction xs arbitrary: c0) simp_all

lemma length_filter_concat:
  "length (filter P (concat xss)) = sum_list (map (\<lambda>xs. length (filter P xs)) xss)"
  by (induction xss) simp_all

lemma constraining_cost_spec: "constraining_cost row d nb v = cost_spec row d nb v"
proof -
  have "constraining_cost row d nb v =
      sum_list (map (\<lambda>x. length (filter (\<lambda>val. conflict (int row) v (int x) val) (d ! x))) (nb ! row))"
    unfolding constraining_cost_def fold_count by (simp add: fold_add)
  also have "\<dots> = cost_spec row d nb v"
    unfolding cost_spec_def length_filter_concat
    by (simp add: comp_def filter_map)
  finally show ?thesis .
qed

text \<open>
  Claim C6. When \<open>row\<close> and its neighbours are keys of the dictionaries,
  \<open>order_domain_values(row, domains, neighbors)\<close> returns a list that holds exactly the
  values of \<open>domains[row]\<close>, is in ascending order of the constraining cost, and keeps values
  of equal cost in the order in which \<open>domains[row]\<close> is iterated (a stable sort).
\<close>

theorem order_domain_values_lcv:
  assumes "row < length d" and "row < length nb" and "\<forall>x\<in>set (nb ! row). x < length d"
  shows "\<exists>vals. fst (order_domain_values row d nb) = Ret vals
           \<and> mset vals = mset (d ! row)
           \<and> sorted (map (cost_spec row d nb) vals)
           \<and> (\<forall>k. filter (\<lambda>v. cost_spec row d nb v = k) vals
                    = filter (\<lambda>v. cost_spec row d nb v = k) (d ! row))"
proof -
  let ?vals = "sort_key (cost_spec row d nb) (d ! row)"
  have eq: "constraining_cost row d nb = cost_spec row d nb"
    by (rule ext) (rule constraining_cost_spec)
  from assms have "fst (order_domain_values row d nb) = Ret ?vals"
    by (auto simp add: order_domain_values_def Let_def list_ex_iff eq)
  moreover have "mset ?vals = mset (d ! row)" by simp
  moreover have "sorted (map (cost_spec row d nb) ?vals)" by (rule sorted_sort_key)
  moreover have "\<forall>k. filter (\<lambda>v. cost_spec row d nb v = k) ?vals
                    = filter (\<lambda>v. cost_spec row d nb v = k) (d ! row)"
    by (simp add: sort_key_stable)
  ultimately show ?thesis by blast
qed

theorem order_domain_values_lcv_witness:
  "fst (order_domain_values 1 [[0, 1, 2, 3], [0, 1, 2, 3], [0, 1, 2, 3], [0, 1, 2, 3]]
          [[1, 2, 3], [0, 2, 3], [0, 1, 3], [0, 1, 2]]) = Ret [0, 3, 1, 2]
   \<and> map (cost_spec 1 [[0, 1, 2, 3], [0, 1, 2, 3], [0, 1, 2, 3], [0, 1, 2, 3]]
          [[1, 2, 3], [0, 2, 3], [0, 1, 3], [0, 1, 2]]) [0, 3, 1, 2] = [6, 6, 8, 8]"
proof -
  have a: "fst (order_domain_values 1 [[0, 1, 2, 3], [0, 1, 2, 3], [0, 1, 2, 3], [0, 1, 2, 3]]
          [[1, 2, 3], [0, 2, 3], [0, 1, 3], [0, 1, 2]]) = Ret [0, 3, 1, 2]" by code_simp
  have b: "map (cost_spec 1 [[0, 1, 2, 3], [0, 1, 2, 3], [0, 1, 2, 3], [0, 1, 2, 3]]
          [[1, 2, 3], [0, 2, 3], [0, 1, 3], [0, 1, 2]]) [0, 3, 1, 2] = [6, 6, 8, 8]" by code_simp
  have "\<exists>vals. fst (order_domain_values 1 [[0, 1, 2, 3], [0, 1, 2, 3], [0, 1, 2, 3], [0, 1, 2, 3]]
          [[1, 2, 3], [0, 2, 3], [0, 1, 3], [0, 1, 2]]) = Ret vals
        \<and> sorted (map (cost_spec 1 [[0, 1, 2, 3], [0, 1, 2, 3], [0, 1, 2, 3], [0, 1, 2, 3]]
          [[1, 2, 3], [0, 2, 3], [0, 1, 3], [0, 1, 2]]) vals)"
    using order_domain_values_lcv[of 1 "[[0, 1, 2, 3], [0, 1, 2, 3], [0, 1, 2, 3], [0, 1, 2, 3]]"
          "[[1, 2, 3], [0, 2, 3], [0, 1, 3], [0, 1, 2]]"] by auto
  with a b show ?thesis by simp
qed



section \<open>Backtracking search (backtracking.py)\<close>

text \<open>
  The restoring loop writes the snapshot back over the rows of \<open>range(n)\<close>; when the
  dictionary has exactly these rows, the result is the snapshot.
\<close>

lemma restore_upto:
  "k \<le> length saved \<Longrightarrow> k \<le> length d \<Longrightarrow>
     fold (\<lambda>r d. d[r := saved ! r]) [0..<k] d = take k saved @ drop k d"
proof (induction k)
  case 0
  then show ?case by simp
next
  case (Suc k)
  then have IH: "fold (\<lambda>r d. d[r := saved ! r]) [0..<k] d = take k saved @ drop k d" by simp
  from Suc.prems have k: "k < length saved" "k < length d" by simp_all
  have dk: "drop k d = d ! k # drop (Suc k) d" using k by (simp add: Cons_nth_drop_Suc)
  have "(take k saved @ drop k d)[k := saved ! k] = take (Suc k) saved @ drop (Suc k) d"
    unfolding dk using k by (simp add: list_update_append take_Suc_conv_app_nth)
  with IH show ?case by simp
qed

lemma restore_take: "n \<le> length d \<Longrightarrow> length d' = length d \<Longrightarrow>
    restore d' (take n d) n = take n d @ drop n d'"
  unfolding restore_def
proof -
  assume a: "n \<le> length d" "length d' = length d"
  have "fold (\<lambda>r x. x[r := take n d ! r]) [0..<n] d' = take n (take n d) @ drop n d'"
    by (rule restore_upto) (use a in simp_all)
  then show "fold (\<lambda>r x. x[r := take n d ! r]) [0..<n] d' = take n d @ drop n d'" by simp
qed

lemma restore_all: "length d = n \<Longrightarrow> length d' = n \<Longrightarrow> restore d' (take n d) n = d"
  using restore_take[of n d d'] by simp


text \<open>
  The defining equations of the search and of its loop are unfolded by hand below, one exit
  of the loop body at a time.
\<close>

declare backtracking_search.simps [simp del] try_candidates.simps [simp del]

lemma restore_all': "length d = n \<Longrightarrow> length d' = n \<Longrightarrow> restore d' d n = d"
  using restore_all[of d n d'] by simp

lemma unassign_id: "a ! row = None \<Longrightarrow> a[row := None] = a"
  by (metis list_update_id)

lemma unassign_again: "a ! row = None \<Longrightarrow> a[row := Some col, row := None] = a"
  by (metis list_update_id list_update_overwrite)

lemma try_candidates_quick:
  "quick_conflict row col a n \<Longrightarrow>
     try_candidates row (col # cols) d nb a n = try_candidates row cols d nb a n"
  by (simp add: try_candidates.simps)

lemma try_candidates_AC3_fails:
  assumes "\<not> quick_conflict row col a n" and "n \<le> length d"
    and "AC3 (d[row := [col]]) nb n = (Ret False, d2)"
  shows "try_candidates row (col # cols) d nb a n =
         try_candidates row cols (restore d2 (take n d) n) nb (a[row := Some col, row := None]) n"
  using assms by (simp add: try_candidates.simps Let_def)

lemma try_candidates_search_fails:
  assumes "\<not> quick_conflict row col a n" and "n \<le> length d"
    and "AC3 (d[row := [col]]) nb n = (Ret True, d2)"
    and "backtracking_search d2 nb (a[row := Some col]) n = (Ret False, d3, a3)"
  shows "try_candidates row (col # cols) d nb a n =
         try_candidates row cols (restore d3 (take n d) n) nb (a3[row := None]) n"
  using assms by (simp add: try_candidates.simps Let_def)

lemma try_candidates_search_returns:
  assumes "\<not> quick_conflict row col a n" and "n \<le> length d"
    and "AC3 (d[row := [col]]) nb n = (Ret True, d2)"
    and "backtracking_search d2 nb (a[row := Some col]) n = (r, d3, a3)"
    and "r \<noteq> Ret False"
  shows "try_candidates row (col # cols) d nb a n = (r, d3, a3)"
  using assms by (auto simp add: try_candidates.simps Let_def split: sum.splits bool.splits)

lemma try_candidates_AC3_raises:
  assumes "\<not> quick_conflict row col a n" and "n \<le> length d"
    and "AC3 (d[row := [col]]) nb n = (Raise e, d2)"
  shows "try_candidates row (col # cols) d nb a n = (Raise e, d2, a[row := Some col])"
  using assms by (simp add: try_candidates.simps Let_def)

lemma try_candidates_snapshot_raises:
  assumes "\<not> quick_conflict row col a n" and "\<not> n \<le> length d"
  shows "try_candidates row (col # cols) d nb a n = (Raise KeyError, d, a[row := Some col])"
  using assms by (simp add: try_candidates.simps Let_def)

lemma backtracking_search_complete:
  assumes "n \<le> length a" and "filter (\<lambda>r. a ! r = None) [0..<n] = []"
  shows "backtracking_search d nb a n = (Ret True, d, a)"
  using assms by (simp add: backtracking_search.simps)

lemma backtracking_search_candidates:
  assumes "n \<le> length a" and "filter (\<lambda>r. a ! r = None) [0..<n] \<noteq> []"
    and "select_unassigned_row d (filter (\<lambda>r. a ! r = None) [0..<n]) nb = (Ret row, s1)"
    and "order_domain_values row d nb = (Ret cols, s2)"
  shows "backtracking_search d nb a n = try_candidates row cols d nb a n"
proof -
  obtain d1 u1 nb1 where s1: "s1 = (d1, u1, nb1)" by (metis prod_cases3)
  obtain d2 nb2 where s2: "s2 = (d2, nb2)" by (metis prod.exhaust)
  from select_unassigned_row_Ret(2,3)[OF assms(3)[unfolded s1]] have 1: "d1 = d" "nb1 = nb" .
  from order_domain_values_Ret(1,2)[OF assms(4)[unfolded s2]] have 2: "d2 = d" "nb2 = nb" .
  from assms s1 s2 1 2 show ?thesis by (simp add: backtracking_search.simps Let_def)
qed

lemma backtracking_search_raises:
  assumes "fst (backtracking_search d nb a n) = Ret b"
  shows "n \<le> length a"
  using assms by (auto simp add: backtracking_search.simps split: if_splits)


lemma backtracking_search_heuristic_raises:
  assumes "n \<le> length a" and "filter (\<lambda>r. a ! r = None) [0..<n] \<noteq> []"
    and "select_unassigned_row d (filter (\<lambda>r. a ! r = None) [0..<n]) nb = (Raise e, s1)
         \<or> (select_unassigned_row d (filter (\<lambda>r. a ! r = None) [0..<n]) nb = (Ret row, s1)
            \<and> order_domain_values row d nb = (Raise e, s2))"
  shows "backtracking_search d nb a n = (Raise e, d, a)"
proof -
  obtain d1 u1 nb1 where s1: "s1 = (d1, u1, nb1)" by (metis prod_cases3)
  obtain d2 nb2 where s2: "s2 = (d2, nb2)" by (metis prod.exhaust)
  from assms(3) show ?thesis
  proof
    assume r: "select_unassigned_row d (filter (\<lambda>r. a ! r = None) [0..<n]) nb = (Raise e, s1)"
    from select_unassigned_row_Raise(1)[OF r[unfolded s1]] assms(1,2) r s1 show ?thesis
      by (simp add: backtracking_search.simps Let_def)
  next
    assume r: "select_unassigned_row d (filter (\<lambda>r. a ! r = None) [0..<n]) nb = (Ret row, s1)
            \<and> order_domain_values row d nb = (Raise e, s2)"
    from r s1 s2 have ra: "select_unassigned_row d (filter (\<lambda>r. a ! r = None) [0..<n]) nb
            = (Ret row, (d1, u1, nb1))" and rb: "order_domain_values row d nb = (Raise e, (d2, nb2))"
      by simp_all
    from select_unassigned_row_Ret(2,3)[OF ra] have 1: "d1 = d" "nb1 = nb" .
    from order_domain_values_Raise(1)[OF rb] have 2: "d2 = d" .
    from assms(1,2) ra rb 1 2 show ?thesis
      by (simp add: backtracking_search.simps Let_def)
  qed
qed

text \<open>
  A search that returns failure returns the domains and the assignment it was called with;
  so does the loop over the candidates of an unassigned row.
\<close>

lemma backtracking_restores:
  "length d = n \<longrightarrow> fst (backtracking_search d nb a n) = Ret False \<longrightarrow>
     snd (backtracking_search d nb a n) = (d, a)"
  "length d = n \<longrightarrow> a ! row = None \<longrightarrow> fst (try_candidates row cols d nb a n) = Ret False \<longrightarrow>
     snd (try_candidates row cols d nb a n) = (d, a)"
proof (induction d nb a n and row cols d nb a n rule: backtracking_search_try_candidates.induct)
  case (1 domains neighbors assignment n)
  let ?u = "filter (\<lambda>r. assignment ! r = None) [0..<n]"
  show ?case
  proof (intro impI)
    assume len: "length domains = n"
      and f: "fst (backtracking_search domains neighbors assignment n) = Ret False"
    from backtracking_search_raises[OF f] have na: "n \<le> length assignment" .
    have u: "?u \<noteq> []"
      using backtracking_search_complete[OF na, of domains neighbors] f by auto
    obtain r1 d1 u1 nb1 where sel: "select_unassigned_row domains ?u neighbors = (r1, (d1, u1, nb1))"
      by (metis prod_cases4)
    show "snd (backtracking_search domains neighbors assignment n) = (domains, assignment)"
    proof (cases r1)
      case (Inl e)
      with backtracking_search_heuristic_raises[OF na u, of domains neighbors e "(d1, u1, nb1)"] sel f
      show ?thesis by simp
    next
      case (Inr row)
      note s = select_unassigned_row_Ret[OF sel[unfolded Inr]]
      obtain r2 d2 nb2 where ord: "order_domain_values row d1 nb1 = (r2, (d2, nb2))"
        by (metis prod_cases3)
      show ?thesis
      proof (cases r2)
        case (Inl e)
        with backtracking_search_heuristic_raises[OF na u, of domains neighbors e "(d1, u1, nb1)" row "(d2, nb2)"]
          sel ord \<open>r1 = Inr row\<close> s(2,3) f
        show ?thesis by simp
      next
        case (Inr cols)
        note o = order_domain_values_Ret[OF ord[unfolded Inr]]
        have eq: "backtracking_search domains neighbors assignment n =
              try_candidates row cols domains neighbors assignment n"
          using backtracking_search_candidates[OF na u, of domains neighbors row "(d1, u1, nb1)" cols "(d2, nb2)"]
            sel ord \<open>r1 = Inr row\<close> Inr s(2,3) by simp
        have none: "assignment ! row = None" using s(1) by simp
        from 1[of ?u r1 "(d1, u1, nb1)" row d1 "(u1, nb1)" u1 nb1 r2 "(d2, nb2)" cols d2 nb2]
          na u sel ord \<open>r1 = Inr row\<close> Inr s(2,3) o(1,2) len none f eq
        show ?thesis by simp
      qed
    qed
  qed
next
  case (2 row domains neighbors assignment n)
  show ?case by (simp add: try_candidates.simps)
next
  case (3 row col cols domains neighbors assignment n)
  let ?a1 = "assignment[row := Some col]"
  let ?d1 = "domains[row := [col]]"
  let ?saved = "take n domains"
  show ?case
  proof (intro impI)
    assume len: "length domains = n" and none: "assignment ! row = None"
      and f: "fst (try_candidates row (col # cols) domains neighbors assignment n) = Ret False"
    show "snd (try_candidates row (col # cols) domains neighbors assignment n) = (domains, assignment)"
    proof (cases "quick_conflict row col assignment n")
      case True
      with 3(1) len none f show ?thesis by (simp add: try_candidates_quick)
    next
      case qc: False
      from len have nd: "n \<le> length domains" "\<not> length domains < n" by simp_all
      obtain r2 d2 where ac: "AC3 ?d1 neighbors n = (r2, d2)" by (metis prod.exhaust)
      from AC3_length[OF ac] len have len2: "length d2 = n" by simp
      show ?thesis
      proof (cases r2)
        case (Inl e)
        with try_candidates_AC3_raises[OF qc nd(1), of neighbors e d2 cols] ac f
        show ?thesis by simp
      next
        case (Inr b)
        show ?thesis
        proof (cases b)
          case False
          from ac Inr False have ac': "AC3 ?d1 neighbors n = (Ret False, d2)" by simp
          have eq: "try_candidates row (col # cols) domains neighbors assignment n
                = try_candidates row cols domains neighbors assignment n"
            using try_candidates_AC3_fails[OF qc nd(1) ac', of cols]
            by (simp add: restore_all[OF len len2] restore_all'[OF len len2] unassign_again[OF none] unassign_id[OF none])
          from 3(4)[of ?a1 ?saved ?d1 r2 d2 b] qc nd(2) ac Inr False
          have "length domains = n \<longrightarrow> assignment ! row = None \<longrightarrow>
               fst (try_candidates row cols domains neighbors assignment n) = Ret False \<longrightarrow>
               snd (try_candidates row cols domains neighbors assignment n) = (domains, assignment)"
            by (simp add: restore_all[OF len len2] restore_all'[OF len len2] unassign_again[OF none] unassign_id[OF none])
          with eq len none f show ?thesis by simp
        next
          case True
          from ac Inr True have ac': "AC3 ?d1 neighbors n = (Ret True, d2)" by simp
          obtain r3 d3 a3 where bs: "backtracking_search d2 neighbors ?a1 n = (r3, d3, a3)"
            by (metis prod_cases3)
          show ?thesis
          proof (cases "r3 = Ret False")
            case False
            from try_candidates_search_returns[OF qc nd(1) ac' bs False, of cols] f False
            show ?thesis by simp
          next
            case rf: True
            from 3(2)[of ?a1 ?saved ?d1 r2 d2 b] qc nd(2) ac Inr True len2 bs rf
            have same: "d3 = d2" "a3 = ?a1" by simp_all
            have eq: "try_candidates row (col # cols) domains neighbors assignment n
                = try_candidates row cols domains neighbors assignment n"
              using try_candidates_search_fails[OF qc nd(1) ac' bs[unfolded rf], of cols] same
              by (simp add: restore_all[OF len len2] restore_all'[OF len len2] unassign_again[OF none] unassign_id[OF none])
            from 3(3)[of ?a1 ?saved ?d1 r2 d2 b r3 "(d3, a3)" False d3 a3] qc nd(2) ac Inr True bs rf same
            have "length domains = n \<longrightarrow> assignment ! row = None \<longrightarrow>
               fst (try_candidates row cols domains neighbors assignment n) = Ret False \<longrightarrow>
               snd (try_candidates row cols domains neighbors assignment n) = (domains, assignment)"
              by (simp add: restore_all[OF len len2] restore_all'[OF len len2] unassign_again[OF none] unassign_id[OF none])
            with eq len none f show ?thesis by simp
          qed
        qed
      qed
    qed
  qed
qed





section \<open>Soundness of the solver\<close>














text \<open>The dictionaries that \<open>solve_nqueens_csp\<close> builds are well-formed.\<close>

lemma solver_neighbors_well_formed:
  "closed_rows (map (\<lambda>r. map int [0..<n]) [0..<n])
               (map (\<lambda>r. filter (\<lambda>x. x \<noteq> r) [0..<n]) [0..<n]) n"
  "symmetric_neighbors (map (\<lambda>r. filter (\<lambda>x. x \<noteq> r) [0..<n]) [0..<n]) n"
  by (auto simp add: closed_rows_iff symmetric_neighbors_iff)

text \<open>
  On well-formed dictionaries no key lookup of the heuristics, of the search or of its loop
  fails: the search returns \<open>True\<close> or \<open>False\<close>. In particular \<open>solve_nqueens_csp\<close> returns
  for every \<open>n\<close>, with an assignment or with \<open>None\<close>.
\<close>

lemma select_unassigned_row_returns:
  assumes "u \<noteq> []" and "\<forall>r\<in>set u. r < length d \<and> r < length nb"
  shows "\<exists>row. select_unassigned_row d u nb = (Ret row, (d, sort_key (mrv_key d nb) u, nb))"
proof -
  from assms(1) have "sort_key (mrv_key d nb) u \<noteq> []"
    by (metis length_sort list.size(3) length_0_conv)
  with assms(2) show ?thesis
    by (auto simp add: select_unassigned_row_def Let_def list_ex_iff not_le)
qed

lemma order_domain_values_returns:
  assumes "row < length d" and "row < length nb" and "\<forall>x\<in>set (nb ! row). x < length d"
  shows "\<exists>cols. order_domain_values row d nb = (Ret cols, (d, nb))"
  using assms by (auto simp add: order_domain_values_def Let_def list_ex_iff not_le)

lemma closed_rows_length: "closed_rows d nb n \<Longrightarrow> length d' = length d \<Longrightarrow> closed_rows d' nb n"
  by (simp add: closed_rows_iff)

lemma backtracking_returns:
  "closed_rows d nb n \<longrightarrow> length d = n \<longrightarrow> n \<le> length a \<longrightarrow>
     (\<exists>b. fst (backtracking_search d nb a n) = Ret b)"
  "closed_rows d nb n \<longrightarrow> length d = n \<longrightarrow> n \<le> length a \<longrightarrow> a ! row = None \<longrightarrow>
     (\<exists>b. fst (try_candidates row cols d nb a n) = Ret b)"
proof (induction d nb a n and row cols d nb a n rule: backtracking_search_try_candidates.induct)
  case (1 domains neighbors assignment n)
  let ?u = "filter (\<lambda>r. assignment ! r = None) [0..<n]"
  show ?case
  proof (intro impI)
    assume cl: "closed_rows domains neighbors n" and len: "length domains = n"
      and na: "n \<le> length assignment"
    show "\<exists>b. fst (backtracking_search domains neighbors assignment n) = Ret b"
    proof (cases "?u = []")
      case True
      with backtracking_search_complete[OF na True, of domains neighbors] show ?thesis by auto
    next
      case u: False
      from cl have "\<forall>r\<in>set ?u. r < length domains \<and> r < length neighbors"
        by (auto simp add: closed_rows_iff)
      from select_unassigned_row_returns[OF u this]
      obtain row where sel: "select_unassigned_row domains ?u neighbors
          = (Ret row, (domains, sort_key (mrv_key domains neighbors) ?u, neighbors))" by blast
      note s = select_unassigned_row_Ret[OF sel]
      from s(1) have none: "assignment ! row = None" and rown: "row < n" by simp_all
      from cl rown len
      have "row < length domains" "row < length neighbors"
        by (simp_all add: closed_rows_iff)
      moreover have "\<forall>x\<in>set (neighbors ! row). x < length domains"
        using closed_rowsD[OF cl rown] len by simp
      ultimately have "row < length domains" "row < length neighbors"
          "\<forall>x\<in>set (neighbors ! row). x < length domains"
        by simp_all
      from order_domain_values_returns[OF this]
      obtain cols where ord: "order_domain_values row domains neighbors = (Ret cols, (domains, neighbors))"
        by blast
      have eq: "backtracking_search domains neighbors assignment n =
              try_candidates row cols domains neighbors assignment n"
        by (rule backtracking_search_candidates[OF na u sel ord])
      from 1[of ?u "Ret row" "(domains, sort_key (mrv_key domains neighbors) ?u, neighbors)" row domains
          "(sort_key (mrv_key domains neighbors) ?u, neighbors)" "sort_key (mrv_key domains neighbors) ?u"
          neighbors "Ret cols" "(domains, neighbors)" cols domains neighbors]
        na u sel ord cl len none
      have "\<exists>b. fst (try_candidates row cols domains neighbors assignment n) = Ret b" by simp
      with eq show ?thesis by simp
    qed
  qed
next
  case (2 row domains neighbors assignment n)
  show ?case by (auto simp add: try_candidates.simps)
next
  case (3 row col cols domains neighbors assignment n)
  let ?a1 = "assignment[row := Some col]"
  let ?d1 = "domains[row := [col]]"
  let ?saved = "take n domains"
  show ?case
  proof (intro impI)
    assume cl: "closed_rows domains neighbors n" and len: "length domains = n"
      and na: "n \<le> length assignment" and none: "assignment ! row = None"
    have rest: "\<exists>b. fst (try_candidates row (col # cols) domains neighbors assignment n) = Ret b"
      if ih: "closed_rows domains neighbors n \<longrightarrow> length domains = n \<longrightarrow> n \<le> length assignment \<longrightarrow>
             assignment ! row = None \<longrightarrow>
             (\<exists>b. fst (try_candidates row cols domains neighbors assignment n) = Ret b)"
        and eq: "try_candidates row (col # cols) domains neighbors assignment n
                = try_candidates row cols domains neighbors assignment n"
      using ih eq cl len na none by simp
    show "\<exists>b. fst (try_candidates row (col # cols) domains neighbors assignment n) = Ret b"
    proof (cases "quick_conflict row col assignment n")
      case True
      from rest[OF 3(1)[OF True] try_candidates_quick[OF True]] show ?thesis .
    next
      case qc: False
      from len have nd: "n \<le> length domains" "\<not> length domains < n" by simp_all
      have cl1: "closed_rows ?d1 neighbors n" by (rule closed_rows_length[OF cl]) simp
      from AC3_returns[OF cl1] obtain b d2 where ac: "AC3 ?d1 neighbors n = (Ret b, d2)"
        by (metis fst_conv prod.exhaust)
      from AC3_length[OF ac] len have len2: "length d2 = n" by simp
      show ?thesis
      proof (cases b)
        case False
        from ac False have ac': "AC3 ?d1 neighbors n = (Ret False, d2)" by simp
        have eq: "try_candidates row (col # cols) domains neighbors assignment n
                = try_candidates row cols domains neighbors assignment n"
          using try_candidates_AC3_fails[OF qc nd(1) ac', of cols]
          by (simp add: restore_all[OF len len2] unassign_id[OF none])
        from 3(4)[of ?a1 ?saved ?d1 "Ret b" d2 b] qc nd(2) ac False
        have "closed_rows domains neighbors n \<longrightarrow> length domains = n \<longrightarrow> n \<le> length assignment \<longrightarrow>
             assignment ! row = None \<longrightarrow>
             (\<exists>b. fst (try_candidates row cols domains neighbors assignment n) = Ret b)"
          by (simp add: restore_all[OF len len2] restore_all'[OF len len2] unassign_id[OF none])
        from rest[OF this eq] show ?thesis .
      next
        case True
        from ac True have ac': "AC3 ?d1 neighbors n = (Ret True, d2)" by simp
        obtain r3 d3 a3 where bs: "backtracking_search d2 neighbors ?a1 n = (r3, d3, a3)"
          by (metis prod_cases3)
        show ?thesis
        proof (cases "r3 = Ret False")
          case rf: True
          from backtracking_restores(1)[of d2 n neighbors ?a1] len2 bs rf
          have same: "d3 = d2" "a3 = ?a1" by simp_all
          have eq: "try_candidates row (col # cols) domains neighbors assignment n
                = try_candidates row cols domains neighbors assignment n"
            using try_candidates_search_fails[OF qc nd(1) ac' bs[unfolded rf], of cols] same
            by (simp add: restore_all[OF len len2] unassign_id[OF none])
          from 3(3)[of ?a1 ?saved ?d1 "Ret b" d2 b r3 "(d3, a3)" False d3 a3] qc nd(2) ac True bs rf same
          have "closed_rows domains neighbors n \<longrightarrow> length domains = n \<longrightarrow> n \<le> length assignment \<longrightarrow>
             assignment ! row = None \<longrightarrow>
             (\<exists>b. fst (try_candidates row cols domains neighbors assignment n) = Ret b)"
            by (simp add: restore_all[OF len len2] restore_all'[OF len len2] unassign_id[OF none])
          from rest[OF this eq] show ?thesis .
        next
          case nf: False
          from try_candidates_search_returns[OF qc nd(1) ac' bs nf, of cols]
          have eq: "try_candidates row (col # cols) domains neighbors assignment n = (r3, d3, a3)" .
          have cl2: "closed_rows d2 neighbors n" by (rule closed_rows_length[OF cl]) (simp add: len len2)
          from na have na1: "n \<le> length ?a1" by simp
          from 3(2)[of ?a1 ?saved ?d1 "Ret b" d2 b] qc nd(2) ac True cl2 len2 na1 bs
          have "\<exists>b. r3 = Ret b" by simp
          with eq show ?thesis by simp
        qed
      qed
    qed
  qed
qed


lemma solve_nqueens_csp_returns: "\<exists>res. solve_nqueens_csp n = Ret res"
proof -
  let ?D = "map (\<lambda>r. map int [0..<n]) [0..<n]"
  let ?NB = "map (\<lambda>r. filter (\<lambda>x. x \<noteq> r) [0..<n]) [0..<n]"
  let ?A = "map (\<lambda>r. None :: int option) [0..<n]"
  note cl = solver_neighbors_well_formed(1)[of n]
  from AC3_returns[OF cl] obtain b d where ac: "AC3 ?D ?NB n = (Ret b, d)"
    by (metis fst_conv prod.exhaust)
  from AC3_length[OF ac] have len: "length d = n" by simp
  have cl': "closed_rows d ?NB n" by (rule closed_rows_length[OF cl]) (simp add: len)
  have na: "n \<le> length ?A" by simp
  from backtracking_returns(1)[of d ?NB n ?A] cl' len na
  obtain b' where "fst (backtracking_search d ?NB ?A n) = Ret b'" by blast
  then obtain d' a' where bs: "backtracking_search d ?NB ?A n = (Ret b', d', a')"
    by (cases "backtracking_search d ?NB ?A n") simp
  from ac bs show ?thesis
    by (cases b) (simp_all add: solve_nqueens_csp_def Let_def)
qed



section \<open>The smallest boards\<close>

text \<open>
  Claim C4. \<open>solve_nqueens_csp(1)\<close> returns the assignment of row 0 to column 0; for
  \<open>n = 2\<close> and \<open>n = 3\<close> it returns \<open>None\<close>, as an ordinary return value and not as an
  exception.
\<close>

theorem solve_nqueens_csp_small:
  "solve_nqueens_csp 1 = Ret (Some [Some 0])
   \<and> solve_nqueens_csp 2 = Ret None
   \<and> solve_nqueens_csp 3 = Ret None"
  by code_simp

end
